theory Spec2Isabelle
  imports Main
begin

section \<open>Strings as Python sees them\<close>

text \<open>
  A Python \<open>str\<close> is modelled as a \<open>string\<close> (a list of characters); the model covers the
  characters with code points below 256. \<open>str.strip()\<close> removes leading and trailing
  whitespace, where whitespace is what \<open>str.isspace\<close> accepts in that range.
\<close>

definition LF :: char where
  "LF = CHR 0x0A"

definition CR :: char where
  "CR = CHR 0x0D"

definition is_space :: "char \<Rightarrow> bool" where
  "is_space c = (c \<in> set [CHR 0x09, CHR 0x0A, CHR 0x0B, CHR 0x0C, CHR 0x0D,
                           CHR 0x1C, CHR 0x1D, CHR 0x1E, CHR 0x1F, CHR 0x20,
                           CHR 0x85, CHR 0xA0])"

definition strip :: "string \<Rightarrow> string" where
  "strip s = rev (dropWhile is_space (rev (dropWhile is_space s)))"

definition startswith :: "string \<Rightarrow> string \<Rightarrow> bool" where
  "startswith s p = (take (length p) s = p)"

text \<open>\<open>s.split('\n')\<close>: never empty, one more piece than there are newlines.\<close>

fun split_nl :: "string \<Rightarrow> string list" where
  "split_nl [] = [[]]"
| "split_nl (c # cs) =
     (if c = LF then [] # split_nl cs
      else (case split_nl cs of
              [] \<Rightarrow> [[c]]
            | piece # pieces \<Rightarrow> (c # piece) # pieces))"

text \<open>\<open>'\n'.join(xs)\<close>: separators between the pieces only, nothing after the last.\<close>

fun join_nl :: "string list \<Rightarrow> string" where
  "join_nl [] = []"
| "join_nl [x] = x"
| "join_nl (x # y # ys) = x @ LF # join_nl (y # ys)"

section \<open>Hunks and their application to a list of lines\<close>

text \<open>
  A hunk is the dictionary \<open>{'header': ..., 'lines': [(prefix, text), ...], 'end_index': ...}\<close>
  built by \<open>_parse_hunk\<close>; the applier reads \<open>header\<close> and \<open>lines\<close> only.
\<close>

record hunk =
  header :: string
  hlines :: "(string \<times> string) list"
  hunk_end_index :: int

text \<open>
  Lines 306-310 of \<open>_apply_hunk_to_lines\<close>: the index of the first line whose stripped text
  equals the stripped header, or \<open>-1\<close>. The counter \<open>i\<close> is the index of the head of the
  list still to be scanned.
\<close>

fun find_header :: "string list \<Rightarrow> string \<Rightarrow> nat \<Rightarrow> int" where
  "find_header [] hdr i = -1"
| "find_header (line # rest) hdr i =
     (if strip line = strip hdr then int i else find_header rest hdr (i + 1))"

text \<open>
  \<open>_find_hunk_location\<close>, lines 366-374: the texts of the leading run of context and
  removed lines; the first line with any other prefix ends the collection.
\<close>

fun context_lines :: "(string \<times> string) list \<Rightarrow> string list" where
  "context_lines [] = []"
| "context_lines ((prefix, line) # rest) =
     (if prefix = '' '' then line # context_lines rest
      else if prefix = ''-'' then line # context_lines rest
      else [])"

text \<open>
  The inner loop of lines 382-385, for a fixed \<open>i\<close>: \<open>k\<close> is \<open>i + j\<close>, and the loop stops at
  the first mismatch. The caller keeps \<open>i + j\<close> below the number of lines.
\<close>

fun run_matches :: "string list \<Rightarrow> nat \<Rightarrow> string list \<Rightarrow> bool" where
  "run_matches lines k [] = True"
| "run_matches lines k (ctx_line # rest) =
     (if strip (lines ! k) \<noteq> strip ctx_line then False
      else run_matches lines (k + 1) rest)"

text \<open>
  The outer loop, \<open>for i in range(len(lines) - len(context_lines) + 1)\<close>: \<open>n\<close> is the end of
  the range (empty when the bound is not positive), the result the first matching \<open>i\<close> or
  \<open>-1\<close>.
\<close>

function scan_from :: "string list \<Rightarrow> string list \<Rightarrow> nat \<Rightarrow> nat \<Rightarrow> int" where
  "scan_from lines ctx i n =
     (if i < n then (if run_matches lines i ctx then int i else scan_from lines ctx (i + 1) n)
      else -1)"
  by pat_completeness auto
termination
  by (relation "measure (\<lambda>(lines, ctx, i, n). n - i)") auto

declare scan_from.simps [simp del]

definition find_hunk_location :: "string list \<Rightarrow> (string \<times> string) list \<Rightarrow> int" where
  "find_hunk_location lines hunk_lines =
     (let ctx = context_lines hunk_lines in
      if ctx = [] then -1
      else scan_from lines ctx 0 (nat (int (length lines) - int (length ctx) + 1)))"

text \<open>
  Lines 319-336: the loop that sorts the hunk's lines into \<open>context_before\<close>,
  \<open>context_after\<close>, \<open>removals\<close> and \<open>additions\<close>, with the flag \<open>in_changes\<close>. A line with any
  other prefix is skipped and leaves the flag alone.
\<close>

fun split_hunk ::
  "(string \<times> string) list \<Rightarrow> bool \<Rightarrow> string list \<Rightarrow> string list \<Rightarrow> string list \<Rightarrow> string list
    \<Rightarrow> string list \<times> string list \<times> string list \<times> string list" where
  "split_hunk [] in_changes cb ca rems adds = (cb, ca, rems, adds)"
| "split_hunk ((prefix, line) # rest) in_changes cb ca rems adds =
     (if prefix = '' '' then
        (if in_changes then split_hunk rest in_changes cb (ca @ [line]) rems adds
         else split_hunk rest in_changes (cb @ [line]) ca rems adds)
      else if prefix = ''-'' then split_hunk rest True cb ca (rems @ [line]) adds
      else if prefix = ''+'' then split_hunk rest True cb ca rems (adds @ [line])
      else split_hunk rest in_changes cb ca rems adds)"

definition context_before :: "(string \<times> string) list \<Rightarrow> string list" where
  "context_before hl = (case split_hunk hl False [] [] [] [] of (cb, ca, rems, adds) \<Rightarrow> cb)"

definition context_after :: "(string \<times> string) list \<Rightarrow> string list" where
  "context_after hl = (case split_hunk hl False [] [] [] [] of (cb, ca, rems, adds) \<Rightarrow> ca)"

definition removals :: "(string \<times> string) list \<Rightarrow> string list" where
  "removals hl = (case split_hunk hl False [] [] [] [] of (cb, ca, rems, adds) \<Rightarrow> rems)"

definition additions :: "(string \<times> string) list \<Rightarrow> string list" where
  "additions hl = (case split_hunk hl False [] [] [] [] of (cb, ca, rems, adds) \<Rightarrow> adds)"

text \<open>Lines 339-341: the start position, a Python integer clamped at zero.\<close>

definition start_idx :: "int \<Rightarrow> (string \<times> string) list \<Rightarrow> nat" where
  "start_idx match_idx hl =
     (let s = match_idx - int (length (context_before hl)) + 1
      in if s < 0 then 0 else nat s)"

text \<open>
  Lines 347-354: \<open>lines[:start]\<close>, then the three pieces, then
  \<open>lines[start + len(context_before) + len(removals) + len(context_after):]\<close>. Both slice
  bounds are non-negative, so the slices are \<open>take\<close> and \<open>drop\<close>.
\<close>

definition build_new_lines :: "string list \<Rightarrow> nat \<Rightarrow> (string \<times> string) list \<Rightarrow> string list" where
  "build_new_lines lines start hl =
     take start lines @ context_before hl @ additions hl @ context_after hl
       @ drop (start + length (context_before hl) + length (removals hl)
                 + length (context_after hl)) lines"

text \<open>
  \<open>_apply_hunk_to_lines\<close>: \<open>None\<close> is the Python \<open>None\<close> returned when neither search finds
  an anchor.
\<close>

definition apply_hunk_to_lines :: "string list \<Rightarrow> hunk \<Rightarrow> string list option" where
  "apply_hunk_to_lines lines h =
     (let m = find_header lines (header h) 0 in
      if m = -1 then
        (let m' = find_hunk_location lines (hlines h) in
         if m' = -1 then None
         else Some (build_new_lines lines (start_idx m' (hlines h)) (hlines h)))
      else Some (build_new_lines lines (start_idx m (hlines h)) (hlines h)))"

text \<open>
  The loop of \<open>_apply_update\<close>, lines 279-282, over the hunks in the order given (the caller
  passes \<open>reversed(hunks)\<close>); the first failing hunk ends it.
\<close>

fun apply_hunks :: "string list \<Rightarrow> hunk list \<Rightarrow> string list option" where
  "apply_hunks lines [] = Some lines"
| "apply_hunks lines (h # hs) =
     (case apply_hunk_to_lines lines h of
        None \<Rightarrow> None
      | Some lines' \<Rightarrow> apply_hunks lines' hs)"

section \<open>The file system the applier works on\<close>

text \<open>
  The operating system is not part of the repository; the model below is the part of
  POSIX behaviour that the applier relies on. A file system maps path strings to nodes.
  Paths are looked up literally, so the model is exact for normalised paths (proper names
  joined by single slashes: no \<open>.\<close> or \<open>..\<close> component, no repeated or trailing slash), and
  the empty directory name stands for the current directory, which always exists. Under
  any other path the map holds what the operating system resolves that path to.
  Permissions, limits on the length of names and on storage, and changes made by other
  processes are outside the model. The field \<open>writes\<close> records, in order, every path that
  was opened for writing.
\<close>

datatype node = File string | Dir

record filesystem =
  nodes :: "string \<Rightarrow> node option"
  writes :: "string list"

text \<open>
  The subclasses of \<open>OSError\<close> the model raises. Every caller in the applier catches
  \<open>Exception\<close>, so which subclass is raised never changes a result.
\<close>

datatype os_error = FileNotFoundError | FileExistsError | IsADirectoryError

subsection \<open>\<open>posixpath\<close>\<close>

definition rstrip_slash :: "string \<Rightarrow> string" where
  "rstrip_slash s = rev (dropWhile (\<lambda>c. c = CHR ''/'') (rev s))"

text \<open>
  \<open>os.path.split\<close>: the text up to and including the last slash, and the rest; trailing
  slashes are then stripped from the head unless it consists of slashes only.
\<close>

definition os_path_split :: "string \<Rightarrow> string \<times> string" where
  "os_path_split p =
     (let tail = rev (takeWhile (\<lambda>c. c \<noteq> CHR ''/'') (rev p));
          head = rev (dropWhile (\<lambda>c. c \<noteq> CHR ''/'') (rev p))
      in (if head \<noteq> [] \<and> \<not> list_all (\<lambda>c. c = CHR ''/'') head then rstrip_slash head
          else head, tail))"

definition os_path_dirname :: "string \<Rightarrow> string" where
  "os_path_dirname p = fst (os_path_split p)"

definition os_path_join :: "string \<Rightarrow> string \<Rightarrow> string" where
  "os_path_join a b =
     (if startswith b ''/'' then b
      else if a = [] \<or> last a = CHR ''/'' then a @ b
      else a @ ''/'' @ b)"

lemma rev_dropWhile_rev_take:
  "rev (dropWhile P (rev s)) = take (length (rev (dropWhile P (rev s)))) s"
proof -
  have "rev s = takeWhile P (rev s) @ dropWhile P (rev s)" by simp
  then have "s = rev (dropWhile P (rev s)) @ rev (takeWhile P (rev s))"
    by (metis rev_append rev_rev_ident)
  then show ?thesis
    by (metis append_eq_conv_conj)
qed

lemma split_parts: "rev (dropWhile P (rev s)) @ rev (takeWhile P (rev s)) = s"
  by (metis rev_append rev_rev_ident takeWhile_dropWhile_id)

lemma split_head_prefix: "\<exists>n. fst (os_path_split p) = take n p"
proof -
  let ?h = "rev (dropWhile (\<lambda>c. c \<noteq> CHR ''/'') (rev p))"
  have h: "?h = take (length ?h) p" by (rule rev_dropWhile_rev_take)
  have r: "rstrip_slash ?h = take (length (rstrip_slash ?h)) ?h"
    unfolding rstrip_slash_def by (rule rev_dropWhile_rev_take)
  have "\<exists>n. rstrip_slash ?h = take n p"
    by (metis h r take_take)
  with h show ?thesis
    unfolding os_path_split_def Let_def by (auto simp del: length_rev)
qed

lemma split_head_le: "length (fst (os_path_split p)) \<le> length p"
  using split_head_prefix [of p] by (auto simp: min_def)

lemma split_head_less:
  assumes "fst (os_path_split p) \<noteq> p"
  shows "length (fst (os_path_split p)) < length p"
proof -
  obtain n where n: "fst (os_path_split p) = take n p" using split_head_prefix by blast
  with assms have "n < length p" by (metis linorder_not_less take_all)
  with n show ?thesis by simp
qed

lemma split_tail_nonempty:
  assumes "snd (os_path_split p) \<noteq> []"
  shows "fst (os_path_split p) \<noteq> p"
proof
  assume e: "fst (os_path_split p) = p"
  let ?h = "rev (dropWhile (\<lambda>c. c \<noteq> CHR ''/'') (rev p))"
  let ?t = "rev (takeWhile (\<lambda>c. c \<noteq> CHR ''/'') (rev p))"
  have t: "?t \<noteq> []" using assms unfolding os_path_split_def Let_def by simp
  have "?h @ ?t = p" by (rule split_parts)
  then have "length ?h < length p"
    using t by (metis length_append length_greater_0_conv less_add_same_cancel1)
  moreover have "length (rstrip_slash ?h) \<le> length ?h"
    unfolding rstrip_slash_def using length_dropWhile_le [of _ "rev ?h"]
    by (simp del: rev_rev_ident)
  ultimately have "length (fst (os_path_split p)) < length p"
    unfolding os_path_split_def Let_def by (auto simp del: length_rev)
  with e show False by simp
qed

subsection \<open>Path resolution\<close>

text \<open>
  A path names a node when its directory part is empty (a name in the current directory),
  is the path itself (the root), or resolves to a directory.
\<close>

function resolve :: "(string \<Rightarrow> node option) \<Rightarrow> string \<Rightarrow> node option" where
  "resolve ns p =
     (if p = [] then None
      else if os_path_dirname p = [] \<or> os_path_dirname p = p then ns p
      else (case resolve ns (os_path_dirname p) of
              Some Dir \<Rightarrow> ns p
            | _ \<Rightarrow> None))"
  by pat_completeness auto
termination
  by (relation "measure (\<lambda>(ns, p). length p)") (auto simp: os_path_dirname_def split_head_less)

declare resolve.simps [simp del]

definition node_at :: "filesystem \<Rightarrow> string \<Rightarrow> node option" where
  "node_at fs p = resolve (nodes fs) p"

definition os_path_exists :: "filesystem \<Rightarrow> string \<Rightarrow> bool" where
  "os_path_exists fs p = (node_at fs p \<noteq> None)"

definition parent_is_dir :: "filesystem \<Rightarrow> string \<Rightarrow> bool" where
  "parent_is_dir fs p =
     (os_path_dirname p = [] \<or> node_at fs (os_path_dirname p) = Some Dir)"

subsection \<open>Reading and writing text files\<close>

text \<open>
  \<open>open(path, 'r', encoding='utf-8')\<close> leaves \<open>newline\<close> at its default \<open>None\<close>: universal
  newlines, where \<open>read()\<close> returns each \<open>\r\n\<close> and each lone \<open>\r\<close> of the file as \<open>\n\<close>.
  \<open>open(path, 'w', encoding='utf-8')\<close> writes \<open>\n\<close> as \<open>os.linesep\<close>, which is \<open>\n\<close> itself on
  POSIX, so the text is stored as it is.
\<close>

fun universal_newlines :: "string \<Rightarrow> string" where
  "universal_newlines [] = []"
| "universal_newlines [c] = [if c = CR then LF else c]"
| "universal_newlines (c # d # ds) =
     (if c = CR \<and> d = LF then LF # universal_newlines ds
      else (if c = CR then LF else c) # universal_newlines (d # ds))"

definition open_read :: "filesystem \<Rightarrow> string \<Rightarrow> os_error + string" where
  "open_read fs p =
     (case node_at fs p of
        None \<Rightarrow> Inl FileNotFoundError
      | Some Dir \<Rightarrow> Inl IsADirectoryError
      | Some (File c) \<Rightarrow> Inr (universal_newlines c))"

definition write_file :: "filesystem \<Rightarrow> string \<Rightarrow> string \<Rightarrow> filesystem" where
  "write_file fs p s = fs\<lparr>nodes := (nodes fs)(p \<mapsto> File s), writes := writes fs @ [p]\<rparr>"

text \<open>
  Opening for writing truncates an existing regular file or creates a new one in an
  existing directory; the \<open>with\<close> block then writes the whole text. A new name whose last
  component is empty, \<open>.\<close> or \<open>..\<close> names a directory and cannot be opened for writing.
\<close>

definition open_write :: "filesystem \<Rightarrow> string \<Rightarrow> string \<Rightarrow> os_error + filesystem" where
  "open_write fs p s =
     (case node_at fs p of
        Some Dir \<Rightarrow> Inl IsADirectoryError
      | Some (File c) \<Rightarrow> Inr (write_file fs p s)
      | None \<Rightarrow>
          if p = [] then Inl FileNotFoundError
          else if snd (os_path_split p) = [] then Inl IsADirectoryError
          else if snd (os_path_split p) = ''.'' then Inl IsADirectoryError
          else if snd (os_path_split p) = ''..'' then Inl IsADirectoryError
          else if parent_is_dir fs p then Inr (write_file fs p s)
          else Inl FileNotFoundError)"

subsection \<open>\<open>os.remove\<close>, \<open>os.mkdir\<close>, \<open>os.makedirs\<close>\<close>

definition os_remove :: "filesystem \<Rightarrow> string \<Rightarrow> os_error + filesystem" where
  "os_remove fs p =
     (case node_at fs p of
        None \<Rightarrow> Inl FileNotFoundError
      | Some Dir \<Rightarrow> Inl IsADirectoryError
      | Some (File c) \<Rightarrow> Inr (fs\<lparr>nodes := (nodes fs)(p := None)\<rparr>))"

text \<open>
  \<open>os.mkdir\<close>: a name whose last component is \<open>.\<close> or \<open>..\<close> names a directory that is
  there already when its parent is, so the call fails with \<open>FileExistsError\<close>.
\<close>

definition os_mkdir :: "filesystem \<Rightarrow> string \<Rightarrow> os_error + filesystem" where
  "os_mkdir fs name =
     (if name = [] then Inl FileNotFoundError
      else if node_at fs name \<noteq> None then Inl FileExistsError
      else if os_path_dirname name = name then Inl FileExistsError
      else if parent_is_dir fs name then
        (if snd (os_path_split name) = ''.'' then Inl FileExistsError
         else if snd (os_path_split name) = ''..'' then Inl FileExistsError
         else Inr (fs\<lparr>nodes := (nodes fs)(name \<mapsto> Dir)\<rparr>))
      else Inl FileNotFoundError)"

text \<open>
  \<open>os.makedirs(name)\<close> with \<open>exist_ok=False\<close>, as the standard library writes it: split the
  name (once more when the tail is empty), create the head first when it is missing,
  passing over a \<open>FileExistsError\<close> from that call, stop when the tail is \<open>.\<close>, and
  otherwise \<open>mkdir(name)\<close>. An exception leaves the directories made so far in place, so
  the state is returned with it.
\<close>

definition makedirs_split :: "string \<Rightarrow> string \<times> string" where
  "makedirs_split name =
     (if snd (os_path_split name) = [] then os_path_split (fst (os_path_split name))
      else os_path_split name)"

lemma makedirs_split_less:
  assumes "snd (makedirs_split name) \<noteq> []"
  shows "length (fst (makedirs_split name)) < length name"
proof (cases "snd (os_path_split name) = []")
  case True
  then have m: "makedirs_split name = os_path_split (fst (os_path_split name))"
    unfolding makedirs_split_def by simp
  with assms have "length (fst (makedirs_split name)) < length (fst (os_path_split name))"
    using split_head_less split_tail_nonempty by simp
  then show ?thesis using split_head_le [of name] by simp
next
  case False
  then have m: "makedirs_split name = os_path_split name"
    unfolding makedirs_split_def by simp
  with False show ?thesis using split_head_less split_tail_nonempty by simp
qed

definition mkdir_step :: "filesystem \<Rightarrow> string \<Rightarrow> os_error option \<times> filesystem" where
  "mkdir_step fs name =
     (case os_mkdir fs name of Inl e \<Rightarrow> (Some e, fs) | Inr fs' \<Rightarrow> (None, fs'))"

function os_makedirs :: "filesystem \<Rightarrow> string \<Rightarrow> os_error option \<times> filesystem" where
  "os_makedirs fs name =
     (if fst (makedirs_split name) \<noteq> [] \<and> snd (makedirs_split name) \<noteq> []
         \<and> \<not> os_path_exists fs (fst (makedirs_split name))
      then
        (case os_makedirs fs (fst (makedirs_split name)) of
           (r, fs1) \<Rightarrow>
             if r \<noteq> None \<and> r \<noteq> Some FileExistsError then (r, fs1)
             else if snd (makedirs_split name) = ''.'' then (None, fs1)
             else mkdir_step fs1 name)
      else mkdir_step fs name)"
  by pat_completeness auto
termination
  by (relation "measure (\<lambda>(fs, name). length name)") (auto simp: makedirs_split_less)

declare os_makedirs.simps [simp del]

section \<open>The three actions\<close>

text \<open>
  Each action returns its success flag and the file system it leaves behind. The
  \<open>try ... except Exception: return False\<close> of the source is the \<open>Inl\<close> branch of every call
  that can raise.
\<close>

definition apply_update :: "filesystem \<Rightarrow> string \<Rightarrow> hunk list \<Rightarrow> bool \<times> filesystem" where
  "apply_update fs file_path hs =
     (if \<not> os_path_exists fs file_path then (False, fs)
      else
        (case open_read fs file_path of
           Inl e \<Rightarrow> (False, fs)
         | Inr text \<Rightarrow>
             (case apply_hunks (split_nl text) (rev hs) of
                None \<Rightarrow> (False, fs)
              | Some lines' \<Rightarrow>
                  (case open_write fs file_path (join_nl lines') of
                     Inl e \<Rightarrow> (False, fs)
                   | Inr fs' \<Rightarrow> (True, fs')))))"

definition apply_add :: "filesystem \<Rightarrow> string \<Rightarrow> string list \<Rightarrow> bool \<times> filesystem" where
  "apply_add fs file_path lines =
     (let dir_path = os_path_dirname file_path in
      case (if dir_path \<noteq> [] \<and> \<not> os_path_exists fs dir_path then os_makedirs fs dir_path
            else (None, fs)) of
        (Some e, fs1) \<Rightarrow> (False, fs1)
      | (None, fs1) \<Rightarrow>
          (case open_write fs1 file_path (join_nl lines) of
             Inl e \<Rightarrow> (False, fs1)
           | Inr fs2 \<Rightarrow> (True, fs2)))"

definition apply_delete :: "filesystem \<Rightarrow> string \<Rightarrow> bool \<times> filesystem" where
  "apply_delete fs file_path =
     (if os_path_exists fs file_path then
        (case os_remove fs file_path of
           Inl e \<Rightarrow> (False, fs)
         | Inr fs' \<Rightarrow> (True, fs'))
      else (False, fs))"

section \<open>The parser\<close>

definition begin_marker :: string where
  "begin_marker = ''*** Begin Patch''"

definition end_marker :: string where
  "end_marker = ''*** End Patch''"

text \<open>
  The loop of \<open>_parse_hunk\<close>, lines 189-214, from index \<open>i\<close> with the hunk lines collected
  so far. The result carries the value of \<open>i\<close> when the loop is left; at the start of a
  next hunk the source steps \<open>i\<close> back by one before leaving.
\<close>

function hunk_body ::
  "string list \<Rightarrow> nat \<Rightarrow> (string \<times> string) list \<Rightarrow> (string \<times> string) list \<times> int" where
  "hunk_body lines i hunk_lines =
     (if i < length lines then
        (if strip (lines ! i) = end_marker then (hunk_lines, int i)
         else if startswith (lines ! i) ''@@'' then (hunk_lines, int i - 1)
         else if startswith (lines ! i) '' '' then
           hunk_body lines (i + 1) (hunk_lines @ [('' '', drop 1 (lines ! i))])
         else if startswith (lines ! i) ''-'' then
           hunk_body lines (i + 1) (hunk_lines @ [(''-'', drop 1 (lines ! i))])
         else if startswith (lines ! i) ''+'' then
           hunk_body lines (i + 1) (hunk_lines @ [(''+'', drop 1 (lines ! i))])
         else (hunk_lines, int i))
      else (hunk_lines, int i))"
  by pat_completeness auto
termination
  by (relation "measure (\<lambda>(lines, i, hunk_lines). length lines - i)") auto

declare hunk_body.simps [simp del]

text \<open>
  \<open>_parse_hunk\<close>. Its only caller passes an index below \<open>len(lines)\<close> whose line starts
  with \<open>@@\<close>. The returned \<open>end_index\<close> is \<open>i - 1\<close> for the \<open>i\<close> the loop was left with.
\<close>

definition parse_hunk :: "string list \<Rightarrow> nat \<Rightarrow> hunk option" where
  "parse_hunk lines start =
     (if \<not> startswith (lines ! start) ''@@'' then None
      else
        (case hunk_body lines (start + 1) [] of
           (hunk_lines, i) \<Rightarrow>
             Some \<lparr>header = strip (drop 2 (lines ! start)), hlines = hunk_lines,
                   hunk_end_index = i - 1\<rparr>))"

text \<open>
  A parsed block is the dictionary with the keys \<open>action\<close>, \<open>file_path\<close>, \<open>hunks\<close>,
  \<open>content\<close> and \<open>end_index\<close> that \<open>_parse_block\<close> returns.
\<close>

record block =
  action :: string
  file_path :: string
  hunks :: "hunk list"
  content :: "string list"
  end_index :: nat

text \<open>
  The first loop of \<open>_parse_block\<close>, lines 99-117: the action, the path and the index of
  the action line, or \<open>None\<close> when the end marker or the end of the input comes first.
\<close>

function find_action :: "string list \<Rightarrow> nat \<Rightarrow> (string \<times> string \<times> nat) option" where
  "find_action lines i =
     (if i < length lines then
        (let line = strip (lines ! i) in
         if startswith line ''*** Update File:'' then
           Some (''Update'', strip (drop (length ''*** Update File:'') line), i)
         else if startswith line ''*** Add File:'' then
           Some (''Add'', strip (drop (length ''*** Add File:'') line), i)
         else if startswith line ''*** Delete File:'' then
           Some (''Delete'', strip (drop (length ''*** Delete File:'') line), i)
         else if line = end_marker then None
         else find_action lines (i + 1))
      else None)"
  by pat_completeness auto
termination
  by (relation "measure (\<lambda>(lines, i). length lines - i)") auto

declare find_action.simps [simp del]

text \<open>Lines 124-125 (Delete) and 136-139 (Add): forward to the end marker.\<close>

function skip_to_end :: "string list \<Rightarrow> nat \<Rightarrow> nat" where
  "skip_to_end lines i =
     (if i < length lines \<and> strip (lines ! i) \<noteq> end_marker then skip_to_end lines (i + 1)
      else i)"
  by pat_completeness auto
termination
  by (relation "measure (\<lambda>(lines, i). length lines - i)") auto

declare skip_to_end.simps [simp del]

function add_content :: "string list \<Rightarrow> nat \<Rightarrow> string list \<Rightarrow> string list \<times> nat" where
  "add_content lines i acc =
     (if i < length lines \<and> strip (lines ! i) \<noteq> end_marker then
        (if startswith (lines ! i) ''+'' then add_content lines (i + 1) (acc @ [drop 1 (lines ! i)])
         else add_content lines (i + 1) acc)
      else (acc, i))"
  by pat_completeness auto
termination
  by (relation "measure (\<lambda>(lines, i, acc). length lines - i)") auto

declare add_content.simps [simp del]

text \<open>
  Lines 150-159 (Update). After a hunk the loop continues at \<open>hunk['end_index'] + 1\<close>, which
  is not always beyond \<open>i\<close>, so the loop need not end: it is a partial function, and \<open>None\<close>
  means that it does not return.
\<close>

partial_function (option) update_hunks ::
  "string list \<Rightarrow> nat \<Rightarrow> hunk list \<Rightarrow> (hunk list \<times> nat) option" where
  "update_hunks lines i hs =
     (if i < length lines \<and> strip (lines ! i) \<noteq> end_marker then
        (if startswith (lines ! i) ''@@'' then
           (case parse_hunk lines i of
              Some h \<Rightarrow> update_hunks lines (nat (hunk_end_index h + 1)) (hs @ [h])
            | None \<Rightarrow> update_hunks lines (i + 1) hs)
         else update_hunks lines (i + 1) hs)
      else Some (hs, i))"

declare update_hunks.simps [code]

text \<open>
  \<open>_parse_block\<close>: the outer \<open>option\<close> is for not returning, the inner one is the Python
  \<open>None\<close> of a segment without a recognised action.
\<close>

definition parse_block :: "string list \<Rightarrow> nat \<Rightarrow> block option option" where
  "parse_block lines start =
     (case find_action lines start of
        None \<Rightarrow> Some None
      | Some (act, path, i) \<Rightarrow>
          if act = ''Delete'' then
            Some (Some \<lparr>action = act, file_path = path, hunks = [], content = [],
                        end_index = skip_to_end lines (i + 1)\<rparr>)
          else if act = ''Add'' then
            (case add_content lines (i + 1) [] of
               (c, j) \<Rightarrow>
                 Some (Some \<lparr>action = act, file_path = path, hunks = [], content = c,
                             end_index = j\<rparr>))
          else
            (case update_hunks lines (i + 1) [] of
               None \<Rightarrow> None
             | Some (hs, j) \<Rightarrow>
                 Some (Some \<lparr>action = act, file_path = path, hunks = hs, content = [],
                             end_index = j\<rparr>)))"

text \<open>
  The loop of \<open>parse_patch\<close>, lines 71-82. After a begin marker \<open>i\<close> has already been
  advanced when \<open>_parse_block\<close> is called, so a segment without a block moves on by two.
\<close>

partial_function (option) parse_blocks ::
  "string list \<Rightarrow> nat \<Rightarrow> block list \<Rightarrow> block list option" where
  "parse_blocks lines i blocks =
     (if i < length lines then
        (if strip (lines ! i) = begin_marker then
           (case parse_block lines (i + 1) of
              None \<Rightarrow> None
            | Some None \<Rightarrow> parse_blocks lines (i + 1 + 1) blocks
            | Some (Some b) \<Rightarrow> parse_blocks lines (end_index b + 1) (blocks @ [b]))
         else parse_blocks lines (i + 1) blocks)
      else Some blocks)"

declare parse_blocks.simps [code]

definition parse_patch :: "string \<Rightarrow> block list option" where
  "parse_patch patch_text =
     (if strip patch_text = [] then Some []
      else parse_blocks (split_nl patch_text) 0 [])"

section \<open>Applying a patch\<close>

text \<open>
  \<open>apply_patch\<close>, lines 232-256: one \<open>(file_path, success, message)\<close> triple for each parsed
  block. The three actions catch every exception themselves, so the \<open>except\<close> clause of
  the loop body has nothing left to catch; \<open>parse_patch\<close> is called outside of it.
\<close>

type_synonym outcome = "string \<times> bool \<times> string"

definition apply_block :: "filesystem \<Rightarrow> string \<Rightarrow> block \<Rightarrow> outcome \<times> filesystem" where
  "apply_block fs base_dir b =
     (let path = os_path_join base_dir (file_path b) in
      if action b = ''Update'' then
        (case apply_update fs path (hunks b) of
           (success, fs') \<Rightarrow>
             ((file_path b, success,
               if success then ''Updated successfully'' else ''Failed to apply update''), fs'))
      else if action b = ''Add'' then
        (case apply_add fs path (content b) of
           (success, fs') \<Rightarrow>
             ((file_path b, success,
               if success then ''Added successfully'' else ''Failed to add file''), fs'))
      else if action b = ''Delete'' then
        (case apply_delete fs path of
           (success, fs') \<Rightarrow>
             ((file_path b, success,
               if success then ''Deleted successfully'' else ''Failed to delete file''), fs'))
      else ((file_path b, False, ''Unknown action: '' @ action b), fs))"

fun apply_blocks :: "filesystem \<Rightarrow> string \<Rightarrow> block list \<Rightarrow> outcome list \<times> filesystem" where
  "apply_blocks fs base_dir [] = ([], fs)"
| "apply_blocks fs base_dir (b # bs) =
     (case apply_block fs base_dir b of
        (r, fs1) \<Rightarrow>
          (case apply_blocks fs1 base_dir bs of
             (rs, fs2) \<Rightarrow> (r # rs, fs2)))"

definition apply_patch ::
  "filesystem \<Rightarrow> string \<Rightarrow> string \<Rightarrow> (outcome list \<times> filesystem) option" where
  "apply_patch fs patch_text base_dir =
     (case parse_patch patch_text of
        None \<Rightarrow> None
      | Some blocks \<Rightarrow> Some (apply_blocks fs base_dir blocks))"

section \<open>Notions used to state the properties\<close>

text \<open>
  A hunk anchors in a list of lines when one of the two searches of
  \<open>_apply_hunk_to_lines\<close> finds a position; a list of hunks anchors when each hunk
  anchors in the lines that the loop of \<open>_apply_update\<close> hands to it.
\<close>

definition anchors :: "string list \<Rightarrow> hunk \<Rightarrow> bool" where
  "anchors ls h =
     (\<not> (find_header ls (header h) 0 = -1 \<and> find_hunk_location ls (hlines h) = -1))"

fun all_anchor :: "string list \<Rightarrow> hunk list \<Rightarrow> bool" where
  "all_anchor ls [] = True"
| "all_anchor ls (h # hs) =
     (if anchors ls h then
        (case apply_hunk_to_lines ls h of
           None \<Rightarrow> False
         | Some ls' \<Rightarrow> all_anchor ls' hs)
      else False)"






text \<open>The lines that \<open>_apply_update\<close> works on for a file with the stored text \<open>c\<close>.\<close>

definition file_lines :: "string \<Rightarrow> string list" where
  "file_lines c = split_nl (universal_newlines c)"

section \<open>Inputs taken from the specification and from the tests\<close>

text \<open>The example of section 8 of the specification.\<close>

definition spec_file :: "string list" where
  "spec_file = [''a'', ''b'', ''c'', ''old'', ''d'', ''e'', ''f'']"

definition spec_hunk :: hunk where
  "spec_hunk =
     \<lparr>header = ''a'',
      hlines = [('' '', ''a''), ('' '', ''b''), ('' '', ''c''), (''-'', ''old''), (''+'', ''new''),
                ('' '', ''d''), ('' '', ''e''), ('' '', ''f'')],
      hunk_end_index = 0\<rparr>"

definition spec_fs :: filesystem where
  "spec_fs = \<lparr>nodes = [''f.txt'' \<mapsto> File (join_nl spec_file)], writes = []\<rparr>"

text \<open>\<open>test_apply_patch_multiple_hunks\<close>: the file, the patch text and the directory.\<close>

definition multi_py :: "string list" where
  "multi_py =
     [''def func1():'', ''    line1'', ''    line2'', ''    old1'', ''    line3'', ''    line4'',
      '''',
      ''def func2():'', ''    lineA'', ''    lineB'', ''    old2'', ''    lineC'', ''    lineD'']"

definition multi_patch :: "string list" where
  "multi_patch =
     [''*** Begin Patch'',
      ''*** Update File: multi.py'',
      ''@@ def func1():'',
      '' def func1():'',
      ''     line1'',
      ''     line2'',
      ''-     old1'',
      ''+     new1'',
      ''     line3'',
      ''     line4'',
      '''',
      ''@@ def func2():'',
      '' def func2():'',
      ''     lineA'',
      ''     lineB'',
      ''-     old2'',
      ''+     new2'',
      ''     lineC'',
      ''     lineD'',
      ''*** End Patch'']"

definition multi_fs :: filesystem where
  "multi_fs =
     \<lparr>nodes = [''tmp'' \<mapsto> Dir, ''tmp/multi.py'' \<mapsto> File (join_nl multi_py)], writes = []\<rparr>"

text \<open>The same file with both edits at their places.\<close>

definition multi_expected :: "string list" where
  "multi_expected =
     [''def func1():'', ''    line1'', ''    line2'', ''     new1'', ''    line3'', ''    line4'',
      '''',
      ''def func2():'', ''    lineA'', ''    lineB'', ''     new2'', ''    lineC'', ''    lineD'']"

text \<open>A hunk whose header is not a line of the file, so that the context search decides.\<close>

definition drift_file :: "string list" where
  "drift_file = [''x'', ''old'', ''y'']"

definition drift_hunk :: hunk where
  "drift_hunk =
     \<lparr>header = ''nomatch'', hlines = [(''-'', ''old''), (''+'', ''new'')], hunk_end_index = 0\<rparr>"

definition stray_hunk :: hunk where
  "stray_hunk =
     \<lparr>header = ''nomatch'', hlines = [('' '', ''q''), (''-'', ''r''), (''+'', ''s'')],
      hunk_end_index = 0\<rparr>"

definition context_file :: "string list" where
  "context_file = [''header'', ''context1'', ''context2'', ''target_line'', ''context3'', ''footer'']"

definition context_hunk :: hunk where
  "context_hunk =
     \<lparr>header = ''nomatch'',
      hlines = [('' '', ''context1''), ('' '', ''context2''), (''-'', ''target_line''),
                (''+'', ''modified_line''), ('' '', ''context3'')],
      hunk_end_index = 0\<rparr>"

text \<open>A file with Windows line ends, and a patch with two hunk headers in a row.\<close>

definition crlf_fs :: filesystem where
  "crlf_fs = \<lparr>nodes = [''f.txt'' \<mapsto> File [CHR ''a'', CR, LF, CHR ''b'']], writes = []\<rparr>"

definition two_headers_patch :: "string list" where
  "two_headers_patch =
     [''*** Begin Patch'', ''*** Update File: f'', ''@@ a'', ''@@ b'', ''*** End Patch'']"

text \<open>\<open>test_apply_patch_with_context_matching\<close>: the file and the hunk the parser builds.\<close>

definition matching_file :: "string list" where
  "matching_file =
     [''header'', ''context1'', ''context2'', ''context3'', ''target_line'', ''context4'',
      ''context5'', ''context6'', ''footer'']"

definition matching_hunk :: hunk where
  "matching_hunk =
     \<lparr>header = ''context1'',
      hlines = [('' '', ''context1''), ('' '', ''context2''), ('' '', ''context3''),
                (''-'', '' target_line''), (''+'', '' modified_line''), ('' '', ''context4''),
                ('' '', ''context5''), ('' '', ''context6'')],
      hunk_end_index = 10\<rparr>"

text \<open>
  A file with the single line \<open>a\<close>, and a patch with two hunks for it: the first starts
  with an added line under a header that is no line of the file, the second adds that
  header's text after the line \<open>a\<close>. \<open>chain_hunks\<close> are the hunks the parser builds.
\<close>

definition chain_fs :: filesystem where
  "chain_fs = \<lparr>nodes = [''f.txt'' \<mapsto> File ''a''], writes = []\<rparr>"

definition chain_patch :: "string list" where
  "chain_patch =
     [''*** Begin Patch'', ''*** Update File: f.txt'', ''@@ zzz'', ''+new'', ''@@ a'', ''+zzz'',
      ''*** End Patch'']"

definition chain_hunks :: "hunk list" where
  "chain_hunks =
     [\<lparr>header = ''zzz'', hlines = [(''+'', ''new'')], hunk_end_index = 2\<rparr>,
      \<lparr>header = ''a'', hlines = [(''+'', ''zzz'')], hunk_end_index = 5\<rparr>]"



section \<open>Facts about the string and search functions\<close>

lemma split_nl_not_Nil: "split_nl s \<noteq> []"
  by (induction s) (auto split: list.splits)

lemma join_split_nl: "join_nl (split_nl s) = s"
proof (induction s)
  case Nil
  show ?case by simp
next
  case (Cons c cs)
  obtain piece pieces where sp: "split_nl cs = piece # pieces"
    using split_nl_not_Nil [of cs] by (cases "split_nl cs") auto
  show ?case
  proof (cases "c = LF")
    case True
    with Cons sp show ?thesis by simp
  next
    case False
    with Cons sp show ?thesis by (cases pieces) auto
  qed
qed

lemma find_header_none: "(find_header ls hdr i = -1) = (\<forall>l\<in>set ls. strip l \<noteq> strip hdr)"
  by (induction ls arbitrary: i) auto

lemma find_header_first:
  "m < length ls \<Longrightarrow> strip (ls ! m) = strip hdr \<Longrightarrow> (\<forall>k<m. strip (ls ! k) \<noteq> strip hdr)
    \<Longrightarrow> find_header ls hdr i = int (i + m)"
proof (induction ls arbitrary: i m)
  case Nil
  then show ?case by simp
next
  case (Cons l ls)
  show ?case
  proof (cases m)
    case 0
    with Cons.prems show ?thesis by simp
  next
    case (Suc m')
    from Cons.prems Suc have l: "strip l \<noteq> strip hdr" by auto
    from Cons.prems Suc have "\<forall>k<m'. strip (ls ! k) \<noteq> strip hdr" by auto
    with Cons.IH [of m' "i + 1"] Cons.prems Suc have "find_header ls hdr (i + 1) = int (i + 1 + m')"
      by simp
    with l Suc show ?thesis by simp
  qed
qed

lemma find_header_hit:
  assumes "find_header ls hdr i \<noteq> -1"
  shows "\<exists>m<length ls. find_header ls hdr i = int (i + m) \<and> strip (ls ! m) = strip hdr
           \<and> (\<forall>k<m. strip (ls ! k) \<noteq> strip hdr)"
  using assms
proof (induction ls arbitrary: i)
  case Nil
  then show ?case by simp
next
  case (Cons l ls)
  show ?case
  proof (cases "strip l = strip hdr")
    case True
    then show ?thesis by (intro exI [of _ 0]) simp
  next
    case False
    with Cons.prems have "find_header ls hdr (i + 1) \<noteq> -1" by simp
    from Cons.IH [OF this] obtain m where m: "m < length ls"
      "find_header ls hdr (i + 1) = int (i + 1 + m)" "strip (ls ! m) = strip hdr"
      "\<forall>k<m. strip (ls ! k) \<noteq> strip hdr" by blast
    have "\<forall>k<Suc m. strip ((l # ls) ! k) \<noteq> strip hdr"
      using False m(4) by (auto simp: less_Suc_eq_0_disj)
    with m False show ?thesis by (intro exI [of _ "Suc m"]) simp
  qed
qed

lemma apply_hunk_header_hit:
  assumes "find_header ls (header h) 0 \<noteq> -1"
  shows "apply_hunk_to_lines ls h =
           Some (build_new_lines ls (start_idx (find_header ls (header h) 0) (hlines h)) (hlines h))"
  using assms by (simp add: apply_hunk_to_lines_def Let_def)

text \<open>
  The context search is a first-match search: a run matches at \<open>k\<close> when the stripped
  lines from \<open>k\<close> on equal the stripped context lines, and the scan returns the lowest
  such index of its range, or \<open>-1\<close> when there is none.
\<close>

lemma run_matches_iff:
  "k + length ctx \<le> length ls \<Longrightarrow>
     run_matches ls k ctx = (map strip (take (length ctx) (drop k ls)) = map strip ctx)"
proof (induction ctx arbitrary: k)
  case Nil
  show ?case by simp
next
  case (Cons c ctx)
  from Cons.prems have k: "k < length ls" by simp
  then have d: "drop k ls = ls ! k # drop (Suc k) ls" by (simp add: Cons_nth_drop_Suc)
  from Cons.prems have "Suc k + length ctx \<le> length ls" by simp
  from Cons.IH [OF this] d show ?case by auto
qed

lemma scan_from_result:
  "(scan_from ls ctx i n = -1 \<and> (\<forall>j. i \<le> j \<and> j < n \<longrightarrow> \<not> run_matches ls j ctx)) \<or>
   (\<exists>k. scan_from ls ctx i n = int k \<and> i \<le> k \<and> k < n \<and> run_matches ls k ctx \<and>
        (\<forall>j. i \<le> j \<and> j < k \<longrightarrow> \<not> run_matches ls j ctx))"
proof (induction ls ctx i n rule: scan_from.induct)
  case (1 ls ctx i n)
  show ?case
  proof (cases "i < n")
    case False
    then have "scan_from ls ctx i n = -1" by (subst scan_from.simps) simp
    with False show ?thesis by auto
  next
    case True
    show ?thesis
    proof (cases "run_matches ls i ctx")
      case hit: True
      with True have "scan_from ls ctx i n = int i" by (subst scan_from.simps) simp
      with True hit show ?thesis by auto
    next
      case miss: False
      with True have s: "scan_from ls ctx i n = scan_from ls ctx (i + 1) n"
        by (subst scan_from.simps) simp
      have step: "\<And>j. i \<le> j \<Longrightarrow> j = i \<or> i + 1 \<le> j" by auto
      from "1.IH" [OF True miss] show ?thesis
      proof
        assume a: "scan_from ls ctx (i + 1) n = -1 \<and>
          (\<forall>j. i + 1 \<le> j \<and> j < n \<longrightarrow> \<not> run_matches ls j ctx)"
        with miss step have "\<forall>j. i \<le> j \<and> j < n \<longrightarrow> \<not> run_matches ls j ctx" by blast
        with a s show ?thesis by simp
      next
        assume "\<exists>k. scan_from ls ctx (i + 1) n = int k \<and> i + 1 \<le> k \<and> k < n \<and>
          run_matches ls k ctx \<and> (\<forall>j. i + 1 \<le> j \<and> j < k \<longrightarrow> \<not> run_matches ls j ctx)"
        then obtain k where k: "scan_from ls ctx (i + 1) n = int k" "i + 1 \<le> k" "k < n"
          "run_matches ls k ctx" "\<forall>j. i + 1 \<le> j \<and> j < k \<longrightarrow> \<not> run_matches ls j ctx" by blast
        with miss step have "\<forall>j. i \<le> j \<and> j < k \<longrightarrow> \<not> run_matches ls j ctx" by blast
        with k s show ?thesis by auto
      qed
    qed
  qed
qed

lemma apply_hunk_fallback:
  assumes "find_header ls (header h) 0 = -1"
  shows "apply_hunk_to_lines ls h =
           (if find_hunk_location ls (hlines h) = -1 then None
            else Some (build_new_lines ls (start_idx (find_hunk_location ls (hlines h)) (hlines h))
                         (hlines h)))"
  using assms by (simp add: apply_hunk_to_lines_def Let_def)

lemma apply_hunk_None_iff: "(apply_hunk_to_lines ls h = None) = (\<not> anchors ls h)"
  by (simp add: apply_hunk_to_lines_def anchors_def Let_def)

lemma start_idx_max: "start_idx m hl = nat (max 0 (m - int (length (context_before hl)) + 1))"
  by (simp add: start_idx_def Let_def max_def)

lemma apply_hunks_append:
  "apply_hunks ls (xs @ ys) =
     (case apply_hunks ls xs of None \<Rightarrow> None | Some ls' \<Rightarrow> apply_hunks ls' ys)"
  by (induction xs arbitrary: ls) (auto split: option.splits)

lemma apply_hunks_None_iff: "(apply_hunks ls hs = None) = (\<not> all_anchor ls hs)"
proof (induction hs arbitrary: ls)
  case Nil
  show ?case by simp
next
  case (Cons h hs)
  show ?case
  proof (cases "apply_hunk_to_lines ls h")
    case None
    then have "\<not> anchors ls h" by (simp add: apply_hunk_None_iff)
    with None show ?thesis by simp
  next
    case (Some ls')
    then have "anchors ls h" using apply_hunk_None_iff [of ls h] by simp
    with Some Cons.IH [of ls'] show ?thesis by simp
  qed
qed

lemma splice_parts:
  assumes "length a = s"
  shows "take s (a @ b @ c) = a" and "take (length b) (drop s (a @ b @ c)) = b"
    and "drop (s + length b) (a @ b @ c) = c"
  using assms by auto

lemma apply_hunks_reverse_pair:
  "apply_hunks ls (rev [h1, h2]) =
     (case apply_hunk_to_lines ls h2 of
        None \<Rightarrow> None
      | Some ls' \<Rightarrow> apply_hunk_to_lines ls' h1)"
  by (simp split: option.splits)

text \<open>
  The test \<open>test_apply_patch_with_context_matching\<close> expects \<open>header\<close> to stay the first
  line and \<open>modified_line\<close> to be the fifth; the header \<open>context1\<close> is found at index 1, the
  start index is \<open>1 - 3 + 1\<close> clamped to 0, and the first line is overwritten.
\<close>

lemma context_matching_test_result:
  "apply_hunk_to_lines matching_file matching_hunk =
     Some [''context1'', ''context2'', ''context3'', '' modified_line'', ''context4'', ''context5'',
           ''context6'', ''context6'', ''footer'']"
  by code_simp

section \<open>Facts about the file system and the Update action\<close>

lemma node_at_nodes: "node_at fs p = Some n \<Longrightarrow> nodes fs p = Some n"
  unfolding node_at_def
  by (subst (asm) resolve.simps) (auto split: if_splits option.splits node.splits)

lemma universal_newlines_id: "CR \<notin> set s \<Longrightarrow> universal_newlines s = s"
  by (induction s rule: universal_newlines.induct) auto

lemma apply_update_existing:
  assumes "node_at fs p = Some (File c)"
  shows "apply_update fs p hs =
           (case apply_hunks (file_lines c) (rev hs) of
              None \<Rightarrow> (False, fs)
            | Some lines' \<Rightarrow> (True, write_file fs p (join_nl lines')))"
  using assms
  by (simp add: apply_update_def os_path_exists_def open_read_def open_write_def file_lines_def
      split: option.splits)

lemma spec_fs_node: "node_at spec_fs ''f.txt'' = Some (File (join_nl spec_file))"
  by (simp add: spec_fs_def node_at_def resolve.simps os_path_dirname_def os_path_split_def)

section \<open>Properties of hunk application and of the Update action\<close>

text \<open>
  C4. When the stripped header equals the stripped text of some line of the file, and \<open>m\<close>
  is the index of the first such line, the hunk is applied at the start index
  \<open>m - len(context_before) + 1\<close>, clamped to zero when negative. For the file
  \<open>a b c old d e f\<close> and the hunk of the specification's example, the Update succeeds and
  writes \<open>a b c new d e f\<close>.
\<close>

theorem exact_header_start_index:
  assumes "m < length ls" and "strip (ls ! m) = strip (header h)"
    and "\<forall>k<m. strip (ls ! k) \<noteq> strip (header h)"
  shows "find_header ls (header h) 0 = int m \<and>
         apply_hunk_to_lines ls h =
           Some (take (nat (max 0 (int m - int (length (context_before (hlines h))) + 1))) ls
                 @ context_before (hlines h) @ additions (hlines h) @ context_after (hlines h)
                 @ drop (nat (max 0 (int m - int (length (context_before (hlines h))) + 1))
                         + length (context_before (hlines h)) + length (removals (hlines h))
                         + length (context_after (hlines h))) ls) \<and>
         apply_update spec_fs ''f.txt'' [spec_hunk] =
           (True, write_file spec_fs ''f.txt'' (join_nl [''a'', ''b'', ''c'', ''new'', ''d'', ''e'', ''f'']))"
proof -
  have f: "find_header ls (header h) 0 = int m"
    using find_header_first [OF assms, of 0] by simp
  then have "find_header ls (header h) 0 \<noteq> -1" by simp
  from apply_hunk_header_hit [OF this] f
  have g: "apply_hunk_to_lines ls h =
           Some (take (nat (max 0 (int m - int (length (context_before (hlines h))) + 1))) ls
                 @ context_before (hlines h) @ additions (hlines h) @ context_after (hlines h)
                 @ drop (nat (max 0 (int m - int (length (context_before (hlines h))) + 1))
                         + length (context_before (hlines h)) + length (removals (hlines h))
                         + length (context_after (hlines h))) ls)"
    by (simp add: build_new_lines_def start_idx_max)
  have e: "apply_hunks (file_lines (join_nl spec_file)) (rev [spec_hunk]) =
             Some [''a'', ''b'', ''c'', ''new'', ''d'', ''e'', ''f'']"
    by code_simp
  have "apply_update spec_fs ''f.txt'' [spec_hunk] =
          (True, write_file spec_fs ''f.txt'' (join_nl [''a'', ''b'', ''c'', ''new'', ''d'', ''e'', ''f'']))"
    using apply_update_existing [OF spec_fs_node, of "[spec_hunk]"] e by simp
  with f g show ?thesis by simp
qed

theorem exact_header_start_index_witness:
  "0 < length spec_file \<and> strip (spec_file ! 0) = strip (header spec_hunk) \<and>
   find_header spec_file (header spec_hunk) 0 = 0 \<and>
   apply_hunk_to_lines spec_file spec_hunk = Some [''a'', ''b'', ''c'', ''new'', ''d'', ''e'', ''f'']"
proof -
  have a: "0 < length spec_file" by (simp add: spec_file_def)
  have b: "strip (spec_file ! 0) = strip (header spec_hunk)"
    by (simp add: spec_file_def spec_hunk_def)
  have c: "\<forall>k<0::nat. strip (spec_file ! k) \<noteq> strip (header spec_hunk)" by simp
  have d: "context_before (hlines spec_hunk) = [''a'', ''b'', ''c'']"
    "additions (hlines spec_hunk) = [''new'']" "removals (hlines spec_hunk) = [''old'']"
    "context_after (hlines spec_hunk) = [''d'', ''e'', ''f'']"
    by (simp_all add: spec_hunk_def context_before_def additions_def removals_def
        context_after_def)
  from exact_header_start_index [OF a b c] a b d show ?thesis
    by (simp add: spec_file_def)
qed

text \<open>
  C5. A hunk whose header is found in the file is applied whatever the file holds at the
  computed region: the application succeeds, the lines before the start index and the
  lines after the region of length
  \<open>len(context_before) + len(removals) + len(context_after)\<close> are kept, and between them
  stands \<open>context_before + additions + context_after\<close>. Nothing compares the region with
  the hunk's context or removed lines.
\<close>

theorem exact_header_no_verification:
  assumes "\<exists>l\<in>set ls. strip l = strip (header h)"
  shows "\<exists>s new. s = start_idx (find_header ls (header h) 0) (hlines h) \<and> s \<le> length ls \<and>
           apply_hunk_to_lines ls h = Some new \<and>
           take s new = take s ls \<and>
           take (length (context_before (hlines h) @ additions (hlines h) @ context_after (hlines h)))
             (drop s new)
             = context_before (hlines h) @ additions (hlines h) @ context_after (hlines h) \<and>
           drop (s + length (context_before (hlines h) @ additions (hlines h)
                             @ context_after (hlines h))) new
             = drop (s + length (context_before (hlines h)) + length (removals (hlines h))
                       + length (context_after (hlines h))) ls"
proof -
  let ?s = "start_idx (find_header ls (header h) 0) (hlines h)"
  let ?mid = "context_before (hlines h) @ additions (hlines h) @ context_after (hlines h)"
  let ?rest = "drop (?s + length (context_before (hlines h)) + length (removals (hlines h))
                       + length (context_after (hlines h))) ls"
  from assms have hit: "find_header ls (header h) 0 \<noteq> -1"
    by (simp add: find_header_none)
  from find_header_hit [OF hit] obtain m where m: "m < length ls"
    "find_header ls (header h) 0 = int (0 + m)" by blast
  have s: "?s \<le> length ls"
    using m unfolding start_idx_def Let_def by (cases "int m - int (length (context_before (hlines h))) + 1 < 0") simp_all
  have new: "apply_hunk_to_lines ls h = Some (take ?s ls @ ?mid @ ?rest)"
    using apply_hunk_header_hit [OF hit] by (simp add: build_new_lines_def)
  have l: "length (take ?s ls) = ?s" using s by simp
  show ?thesis
    using s new splice_parts [OF l, of ?mid ?rest]
    by (intro exI [of _ ?s] exI [of _ "take ?s ls @ ?mid @ ?rest"]) simp
qed

theorem exact_header_no_verification_witness:
  "(\<exists>l\<in>set [''a'', ''X'', ''Y'', ''Z'']. strip l = strip ''a'') \<and>
   take 3 [''a'', ''X'', ''Y'', ''Z''] \<noteq> [''a'', ''old'', ''d''] \<and>
   apply_hunk_to_lines [''a'', ''X'', ''Y'', ''Z'']
     \<lparr>header = ''a'', hlines = [('' '', ''a''), (''-'', ''old''), (''+'', ''new''), ('' '', ''d'')],
      hunk_end_index = 0\<rparr>
     = Some [''a'', ''new'', ''d'', ''Z'']"
proof -
  let ?ls = "[''a'', ''X'', ''Y'', ''Z'']"
  let ?h = "\<lparr>header = ''a'', hlines = [('' '', ''a''), (''-'', ''old''), (''+'', ''new''), ('' '', ''d'')],
      hunk_end_index = 0\<rparr>"
  have a: "\<exists>l\<in>set ?ls. strip l = strip (header ?h)" by simp
  have c: "context_before (hlines ?h) = [''a'']" "additions (hlines ?h) = [''new'']"
    "removals (hlines ?h) = [''old'']" "context_after (hlines ?h) = [''d'']"
    by (simp_all add: context_before_def additions_def removals_def context_after_def)
  have s: "start_idx (find_header ?ls (header ?h) 0) (hlines ?h) = 0"
    by code_simp
  from exact_header_no_verification [OF a] obtain new where
    n: "apply_hunk_to_lines ?ls ?h = Some new"
      "take (length [''a'', ''new'', ''d'']) new = [''a'', ''new'', ''d'']"
      "drop (length [''a'', ''new'', ''d'']) new = [''Z'']"
    unfolding s c by auto
  have "new = take (length [''a'', ''new'', ''d'']) new @ drop (length [''a'', ''new'', ''d'']) new"
    by (simp only: append_take_drop_id)
  with n(2,3) have "new = [''a'', ''new'', ''d'', ''Z'']" by simp
  with n(1) a show ?thesis by simp
qed

text \<open>
  C1. The context search and the splice after it, evaluated. In \<open>x old y\<close> the run \<open>old\<close> is
  found at index 1, but the hunk is applied at index 2: \<open>old\<close> stays and \<open>y\<close> is replaced.
  In the second file the run \<open>context1 context2 target_line\<close> is found at index 1, but the
  hunk is applied at index 0: \<open>header\<close> is overwritten and \<open>context3\<close> appears twice.
  Neither result is the file with the region at the run replaced.
\<close>

theorem context_search_applies_at_shifted_start:
  "find_header drift_file (header drift_hunk) 0 = -1 \<and>
   find_hunk_location drift_file (hlines drift_hunk) = 1 \<and>
   apply_hunk_to_lines drift_file drift_hunk = Some [''x'', ''old'', ''new''] \<and>
   apply_hunk_to_lines drift_file drift_hunk \<noteq> Some [''x'', ''new'', ''y''] \<and>
   find_header context_file (header context_hunk) 0 = -1 \<and>
   find_hunk_location context_file (hlines context_hunk) = 1 \<and>
   apply_hunk_to_lines context_file context_hunk =
     Some [''context1'', ''context2'', ''modified_line'', ''context3'', ''context3'', ''footer''] \<and>
   apply_hunk_to_lines context_file context_hunk \<noteq>
     Some [''header'', ''context1'', ''context2'', ''modified_line'', ''context3'', ''footer'']"
  by code_simp

text \<open>
  C3. The patch of \<open>test_apply_patch_multiple_hunks\<close>, applied to that test's file. The
  Update reports success and writes the file once, but the written text has lost the
  line \<open>def func2():\<close> and the empty line before it, and ends with \<open>lineC\<close> and \<open>lineD\<close>
  a second time; it is not the file with both edits at their places.
\<close>

theorem two_hunks_top_to_bottom_misplaced:
  "(case apply_patch multi_fs (join_nl multi_patch) ''tmp'' of
      None \<Rightarrow> None
    | Some (rs, fs') \<Rightarrow> Some (rs, node_at fs' ''tmp/multi.py'', writes fs'))
   = Some ([(''multi.py'', True, ''Updated successfully'')],
           Some (File (join_nl
             [''def func1():'', ''    line1'', ''    line2'', ''     new1'', ''    line3'',
              ''    line4'', ''    lineA'', ''    lineB'', ''     new2'', ''    lineC'',
              ''    lineD'', ''    lineC'', ''    lineD''])),
           [''tmp/multi.py'']) \<and>
   join_nl [''def func1():'', ''    line1'', ''    line2'', ''     new1'', ''    line3'',
            ''    line4'', ''    lineA'', ''    lineB'', ''     new2'', ''    lineC'',
            ''    lineD'', ''    lineC'', ''    lineD''] \<noteq> join_nl multi_expected"
  by code_simp

text \<open>
  C10, as the code has it. A hunk whose first line is an added line, applied to lines none
  of which equals its header after stripping: the context search collects nothing and
  returns \<open>-1\<close>, the hunk is not applied, and the Update of an existing file fails and
  leaves the file system as it was. The lines are those the loop hands to the hunk: the
  lines of the file when the hunk is the last of its block, and otherwise the lines left
  by the hunks that follow it in the block, which are applied before it.
\<close>

theorem added_first_hunk_never_anchors:
  assumes "hlines h = (''+'', t) # rest"
    and "node_at fs p = Some (File c)"
    and "apply_hunks (file_lines c) (rev later) = Some ls"
    and "\<forall>l\<in>set ls. strip l \<noteq> strip (header h)"
  shows "context_lines (hlines h) = [] \<and>
         find_hunk_location ls (hlines h) = -1 \<and>
         apply_hunk_to_lines ls h = None \<and>
         apply_update fs p (earlier @ h # later) = (False, fs)"
proof -
  have c: "context_lines (hlines h) = []"
    using assms(1) by simp
  then have f: "find_hunk_location ls (hlines h) = -1"
    by (simp add: find_hunk_location_def)
  have "find_header ls (header h) 0 = -1"
    using assms(4) by (simp add: find_header_none)
  with f have n: "apply_hunk_to_lines ls h = None"
    by (simp add: apply_hunk_fallback)
  have "apply_hunks (file_lines c) (rev (earlier @ h # later)) = None"
    using assms(3) n by (simp add: apply_hunks_append)
  then have "apply_update fs p (earlier @ h # later) = (False, fs)"
    using apply_update_existing [OF assms(2), of "earlier @ h # later"] by simp
  with c f n show ?thesis by simp
qed

theorem added_first_hunk_never_anchors_witness:
  "apply_hunks (file_lines (join_nl spec_file)) (rev []) = Some spec_file \<and>
   find_hunk_location spec_file [(''+'', ''new'')] = -1 \<and>
   apply_hunk_to_lines spec_file \<lparr>header = ''zzz'', hlines = [(''+'', ''new'')], hunk_end_index = 0\<rparr>
     = None \<and>
   apply_update spec_fs ''f.txt'' [\<lparr>header = ''zzz'', hlines = [(''+'', ''new'')], hunk_end_index = 0\<rparr>]
     = (False, spec_fs)"
proof -
  let ?h = "\<lparr>header = ''zzz'', hlines = [(''+'', ''new'')], hunk_end_index = 0\<rparr>"
  have a: "hlines ?h = (''+'', ''new'') # []" by simp
  have b: "apply_hunks (file_lines (join_nl spec_file)) (rev []) = Some spec_file"
    by code_simp
  have c: "\<forall>l\<in>set spec_file. strip l \<noteq> strip (header ?h)"
    by code_simp
  from added_first_hunk_never_anchors [OF a spec_fs_node b c, of "[]"] b show ?thesis
    by simp
qed

text \<open>
  The claim C10 as it is written, with the header compared to the lines of the file, fails
  for the file \<open>a\<close> and the two hunks of \<open>chain_patch\<close>. The first hunk starts with an added
  line and its header \<open>zzz\<close> is no line of the file; the second hunk is applied before it
  and adds the line \<open>zzz\<close>, so the first hunk then anchors at that line: the Update reports
  success and writes \<open>a zzz new\<close>.
\<close>

theorem added_first_hunk_anchors_after_later_hunk:
  "parse_patch (join_nl chain_patch) =
     Some [\<lparr>action = ''Update'', file_path = ''f.txt'', hunks = chain_hunks, content = [],
             end_index = 6\<rparr>] \<and>
   node_at chain_fs ''f.txt'' = Some (File ''a'') \<and>
   hlines (hd chain_hunks) = [(''+'', ''new'')] \<and>
   list_all (\<lambda>l. strip l \<noteq> strip (header (hd chain_hunks))) (file_lines ''a'') \<and>
   fst (apply_update chain_fs ''f.txt'' chain_hunks) \<and>
   node_at (snd (apply_update chain_fs ''f.txt'' chain_hunks)) ''f.txt''
     = Some (File (join_nl [''a'', ''zzz'', ''new'']))"
  by code_simp

text \<open>
  C2. The Update of an existing file. When some hunk does not anchor in the lines the
  loop hands to it, the Update reports failure and the file system is the one it started
  from: no file was opened for writing. When every hunk anchors, the Update reports
  success, the file holds the joined result of the last hunk application, and exactly one
  write, of this file, has been added to the record of writes.
\<close>

theorem update_writes_once_or_not_at_all:
  assumes "node_at fs p = Some (File c)"
  shows "(if all_anchor (file_lines c) (rev hs)
          then \<exists>ls fs'. apply_hunks (file_lines c) (rev hs) = Some ls \<and>
                 apply_update fs p hs = (True, fs') \<and>
                 nodes fs' = (nodes fs)(p \<mapsto> File (join_nl ls)) \<and>
                 writes fs' = writes fs @ [p]
          else apply_update fs p hs = (False, fs))"
proof (cases "all_anchor (file_lines c) (rev hs)")
  case True
  then obtain ls where ls: "apply_hunks (file_lines c) (rev hs) = Some ls"
    using apply_hunks_None_iff [of "file_lines c" "rev hs"] by auto
  with apply_update_existing [OF assms, of hs]
  have "apply_update fs p hs = (True, write_file fs p (join_nl ls))" by simp
  with True ls show ?thesis by (simp add: write_file_def)
next
  case False
  then have "apply_hunks (file_lines c) (rev hs) = None"
    by (simp add: apply_hunks_None_iff)
  with apply_update_existing [OF assms, of hs] False show ?thesis by simp
qed

theorem update_writes_once_or_not_at_all_witness:
  "node_at spec_fs ''f.txt'' = Some (File (join_nl spec_file)) \<and>
   all_anchor (file_lines (join_nl spec_file)) (rev [spec_hunk]) \<and>
   (\<exists>ls fs'. apply_hunks (file_lines (join_nl spec_file)) (rev [spec_hunk]) = Some ls \<and>
      apply_update spec_fs ''f.txt'' [spec_hunk] = (True, fs') \<and>
      nodes fs' = (nodes spec_fs)(''f.txt'' \<mapsto> File (join_nl ls)) \<and>
      writes fs' = writes spec_fs @ [''f.txt'']) \<and>
   \<not> all_anchor (file_lines (join_nl spec_file)) (rev [spec_hunk, stray_hunk]) \<and>
   apply_update spec_fs ''f.txt'' [spec_hunk, stray_hunk] = (False, spec_fs)"
proof -
  have a: "all_anchor (file_lines (join_nl spec_file)) (rev [spec_hunk])"
    by code_simp
  have b: "\<not> all_anchor (file_lines (join_nl spec_file)) (rev [spec_hunk, stray_hunk])"
    by code_simp
  have A: "\<exists>ls fs'. apply_hunks (file_lines (join_nl spec_file)) (rev [spec_hunk]) = Some ls \<and>
      apply_update spec_fs ''f.txt'' [spec_hunk] = (True, fs') \<and>
      nodes fs' = (nodes spec_fs)(''f.txt'' \<mapsto> File (join_nl ls)) \<and>
      writes fs' = writes spec_fs @ [''f.txt'']"
    using update_writes_once_or_not_at_all [OF spec_fs_node, of "[spec_hunk]"]
    unfolding if_P [OF a] .
  have B: "apply_update spec_fs ''f.txt'' [spec_hunk, stray_hunk] = (False, spec_fs)"
    using update_writes_once_or_not_at_all [OF spec_fs_node, of "[spec_hunk, stray_hunk]"]
    unfolding if_not_P [OF b] .
  show ?thesis
    by (intro conjI spec_fs_node a A b B)
qed

text \<open>
  C9, as the code has it. An Update without hunks of an existing file reports success and
  writes the file once. Splitting at newlines and joining again gives the text back, so
  what is written is the text that was read; that is the stored text when it holds no
  carriage return, and then the file is the same as before.
\<close>

theorem empty_update_keeps_text_without_carriage_return:
  assumes "node_at fs p = Some (File c)" and "CR \<notin> set c"
  shows "join_nl (split_nl c) = c \<and>
         apply_update fs p [] = (True, write_file fs p c) \<and>
         nodes (write_file fs p c) = nodes fs \<and>
         writes (write_file fs p c) = writes fs @ [p]"
proof -
  have "apply_update fs p [] = (True, write_file fs p (join_nl (file_lines c)))"
    using apply_update_existing [OF assms(1), of "[]"] by simp
  then have u: "apply_update fs p [] = (True, write_file fs p c)"
    using assms(2) by (simp add: file_lines_def universal_newlines_id join_split_nl)
  have "nodes fs p = Some (File c)"
    using assms(1) by (rule node_at_nodes)
  then have "(nodes fs)(p \<mapsto> File c) = nodes fs" by (rule map_upd_triv)
  with u show ?thesis by (simp add: write_file_def join_split_nl)
qed

theorem empty_update_keeps_text_without_carriage_return_witness:
  "node_at spec_fs ''f.txt'' = Some (File (join_nl spec_file)) \<and>
   CR \<notin> set (join_nl spec_file) \<and>
   apply_update spec_fs ''f.txt'' [] = (True, write_file spec_fs ''f.txt'' (join_nl spec_file)) \<and>
   nodes (write_file spec_fs ''f.txt'' (join_nl spec_file)) = nodes spec_fs"
proof -
  have a: "CR \<notin> set (join_nl spec_file)" by code_simp
  from empty_update_keeps_text_without_carriage_return [OF spec_fs_node a] spec_fs_node a
  show ?thesis by simp
qed

text \<open>
  The claim C9 as it is written fails for a file with the text \<open>a\r\nb\<close>: the Update
  without hunks reports success and leaves the text \<open>a\nb\<close>.
\<close>

theorem empty_update_rewrites_crlf_file:
  "node_at crlf_fs ''f.txt'' = Some (File [CHR ''a'', CR, LF, CHR ''b'']) \<and>
   fst (apply_update crlf_fs ''f.txt'' []) = True \<and>
   node_at (snd (apply_update crlf_fs ''f.txt'' [])) ''f.txt'' = Some (File [CHR ''a'', LF, CHR ''b'']) \<and>
   node_at (snd (apply_update crlf_fs ''f.txt'' [])) ''f.txt'' \<noteq> node_at crlf_fs ''f.txt''"
  by code_simp

section \<open>The parser: facts and properties\<close>

lemma find_action_action:
  "find_action lines i = Some (act, path, j) \<Longrightarrow> act \<in> {''Update'', ''Add'', ''Delete''}"
proof (induction lines i rule: find_action.induct)
  case (1 lines i)
  show ?case
  proof (cases "i < length lines")
    case False
    with "1.prems" show ?thesis
      by (subst (asm) find_action.simps) simp
  next
    case True
    show ?thesis
    proof (cases "startswith (strip (lines ! i)) ''*** Update File:''
        \<or> startswith (strip (lines ! i)) ''*** Add File:''
        \<or> startswith (strip (lines ! i)) ''*** Delete File:''
        \<or> strip (lines ! i) = end_marker")
      case True
      with "1.prems" \<open>i < length lines\<close> show ?thesis
        by (subst (asm) find_action.simps) (auto simp: Let_def split: if_splits)
    next
      case False
      with \<open>i < length lines\<close> have "find_action lines i = find_action lines (i + 1)"
        by (subst find_action.simps) (simp add: Let_def)
      with "1.prems" have "find_action lines (i + 1) = Some (act, path, j)" by simp
      with "1.IH" \<open>i < length lines\<close> False show ?thesis by auto
    qed
  qed
qed

lemma parse_block_shape:
  assumes "parse_block lines i = Some (Some b)"
  shows "action b \<in> {''Update'', ''Add'', ''Delete''} \<and>
         (hunks b \<noteq> [] \<longrightarrow> action b = ''Update'') \<and>
         (content b \<noteq> [] \<longrightarrow> action b = ''Add'')"
proof (cases "find_action lines i")
  case None
  with assms show ?thesis by (simp add: parse_block_def)
next
  case (Some r)
  obtain act path j where r: "r = (act, path, j)" by (cases r)
  with Some have f: "find_action lines i = Some (act, path, j)" by simp
  then have "act \<in> {''Update'', ''Add'', ''Delete''}"
    by (rule find_action_action)
  then consider (del) "act = ''Delete''" | (add) "act = ''Add''" | (upd) "act = ''Update''"
    by blast
  then show ?thesis
  proof cases
    case del
    with assms f have "action b = ''Delete'' \<and> hunks b = [] \<and> content b = []"
      by (auto simp: parse_block_def)
    then show ?thesis by simp
  next
    case add
    obtain c k where "add_content lines (j + 1) [] = (c, k)"
      by (cases "add_content lines (j + 1) []")
    with assms f add have "action b = ''Add'' \<and> hunks b = []"
      by (auto simp: parse_block_def)
    then show ?thesis by simp
  next
    case upd
    with assms f have "update_hunks lines (j + 1) [] \<noteq> None"
      by (auto simp: parse_block_def split: option.splits)
    then obtain hs k where "update_hunks lines (j + 1) [] = Some (hs, k)"
      by (cases "update_hunks lines (j + 1) []") auto
    with assms f upd have "action b = ''Update'' \<and> content b = []"
      by (auto simp: parse_block_def)
    then show ?thesis by simp
  qed
qed

lemma parse_blocks_invariant:
  assumes ret: "parse_blocks lines i acc = Some blocks"
    and blk: "\<And>lines j b. parse_block lines j = Some (Some b) \<Longrightarrow> Q b"
  shows "(\<forall>b\<in>set acc. Q b) \<longrightarrow> (\<forall>b\<in>set blocks. Q b)"
proof (rule parse_blocks.raw_induct
    [where P = "\<lambda>lines i acc blocks. (\<forall>b\<in>set acc. Q b) \<longrightarrow> (\<forall>b\<in>set blocks. Q b)", OF _ ret])
  fix f lines' i' acc' blocks'
  assume IH: "\<And>lines i acc blocks. f lines i acc = Some blocks
                \<Longrightarrow> (\<forall>b\<in>set acc. Q b) \<longrightarrow> (\<forall>b\<in>set blocks. Q b)"
    and step: "(if i' < length lines' then
        (if strip (lines' ! i') = begin_marker then
           (case parse_block lines' (i' + 1) of
              None \<Rightarrow> None
            | Some None \<Rightarrow> f lines' (i' + 1 + 1) acc'
            | Some (Some b) \<Rightarrow> f lines' (end_index b + 1) (acc' @ [b]))
         else f lines' (i' + 1) acc')
      else Some acc') = Some blocks'"
  show "(\<forall>b\<in>set acc'. Q b) \<longrightarrow> (\<forall>b\<in>set blocks'. Q b)"
  proof
    assume acc: "\<forall>b\<in>set acc'. Q b"
    show "\<forall>b\<in>set blocks'. Q b"
    proof (cases "i' < length lines'")
      case False
      with step acc show ?thesis by simp
    next
      case in_range: True
      show ?thesis
      proof (cases "strip (lines' ! i') = begin_marker")
        case False
        with step in_range have "f lines' (i' + 1) acc' = Some blocks'" by simp
        from IH [OF this] acc show ?thesis by simp
      next
        case True
        show ?thesis
        proof (cases "parse_block lines' (i' + 1)")
          case None
          with step in_range True show ?thesis by simp
        next
          case (Some r)
          show ?thesis
          proof (cases r)
            case None
            with step in_range True Some have "f lines' (i' + 1 + 1) acc' = Some blocks'" by simp
            from IH [OF this] acc show ?thesis by simp
          next
            case (Some b)
            with step in_range True \<open>parse_block lines' (i' + 1) = Some r\<close>
            have c: "f lines' (end_index b + 1) (acc' @ [b]) = Some blocks'" by simp
            have "Q b" using blk Some \<open>parse_block lines' (i' + 1) = Some r\<close> by simp
            with acc have "\<forall>x\<in>set (acc' @ [b]). Q x" by simp
            with IH [OF c] show ?thesis by simp
          qed
        qed
      qed
    qed
  qed
qed

text \<open>
  C8. Every block that \<open>parse_patch\<close> returns has one of the three actions; it has hunks
  only when the action is Update, and content lines only when the action is Add.
\<close>

theorem parsed_block_shape:
  assumes "parse_patch patch_text = Some blocks" and "b \<in> set blocks"
  shows "action b \<in> {''Update'', ''Add'', ''Delete''} \<and>
         (hunks b \<noteq> [] \<longrightarrow> action b = ''Update'') \<and>
         (content b \<noteq> [] \<longrightarrow> action b = ''Add'')"
proof (cases "strip patch_text = []")
  case True
  with assms show ?thesis by (simp add: parse_patch_def)
next
  case False
  with assms(1) have ret: "parse_blocks (split_nl patch_text) 0 [] = Some blocks"
    by (simp add: parse_patch_def)
  let ?Q = "\<lambda>b. action b \<in> {''Update'', ''Add'', ''Delete''} \<and>
           (hunks b \<noteq> [] \<longrightarrow> action b = ''Update'') \<and>
           (content b \<noteq> [] \<longrightarrow> action b = ''Add'')"
  have "\<forall>b\<in>set blocks. ?Q b"
    using parse_blocks_invariant [OF ret parse_block_shape]
    by (simp only: list.set ball_empty simp_thms)
  then show ?thesis using assms(2) by (rule bspec)
qed

theorem parsed_block_shape_witness:
  "parse_patch (join_nl multi_patch) \<noteq> None \<and>
   list_all (\<lambda>b. action b = ''Update'' \<and> hunks b \<noteq> [] \<and> content b = [])
     (the (parse_patch (join_nl multi_patch))) \<and>
   parse_patch (join_nl [''*** Begin Patch'', ''*** Add File: new.txt'', ''+one'', ''+two'',
                         ''*** End Patch'', ''*** Begin Patch'', ''*** Delete File: old.txt'',
                         ''*** End Patch''])
     = Some [\<lparr>action = ''Add'', file_path = ''new.txt'', hunks = [], content = [''one'', ''two''],
               end_index = 4\<rparr>,
             \<lparr>action = ''Delete'', file_path = ''old.txt'', hunks = [], content = [],
               end_index = 7\<rparr>]"
proof -
  let ?t = "join_nl [''*** Begin Patch'', ''*** Add File: new.txt'', ''+one'', ''+two'',
                         ''*** End Patch'', ''*** Begin Patch'', ''*** Delete File: old.txt'',
                         ''*** End Patch'']"
  let ?b1 = "\<lparr>action = ''Add'', file_path = ''new.txt'', hunks = [], content = [''one'', ''two''],
               end_index = 4\<rparr>"
  let ?b2 = "\<lparr>action = ''Delete'', file_path = ''old.txt'', hunks = [], content = [],
               end_index = 7\<rparr>"
  have p: "parse_patch ?t = Some [?b1, ?b2]" by code_simp
  have m: "parse_patch (join_nl multi_patch) \<noteq> None \<and>
   list_all (\<lambda>b. action b = ''Update'' \<and> hunks b \<noteq> [] \<and> content b = [])
     (the (parse_patch (join_nl multi_patch)))" by code_simp
  have "?b1 \<in> set [?b1, ?b2]" by simp
  from parsed_block_shape [OF p this] p m show ?thesis by simp
qed

lemma apply_blocks_outcomes:
  "length (fst (apply_blocks fs base_dir bs)) = length bs \<and>
   map fst (fst (apply_blocks fs base_dir bs)) = map file_path bs"
proof (induction bs arbitrary: fs)
  case Nil
  show ?case by simp
next
  case (Cons b bs)
  obtain r fs1 where r: "apply_block fs base_dir b = (r, fs1)" by (cases "apply_block fs base_dir b")
  then have "fst r = file_path b"
    by (auto simp: apply_block_def Let_def split: if_splits prod.splits)
  with r Cons [of fs1] show ?case
    by (cases "apply_blocks fs1 base_dir bs") simp
qed

lemma apply_patch_outcomes:
  assumes "parse_patch patch_text = Some blocks"
  shows "\<exists>rs fs'. apply_patch fs patch_text base_dir = Some (rs, fs') \<and>
           length rs = length blocks \<and> map fst rs = map file_path blocks"
proof -
  obtain rs fs' where r: "apply_blocks fs base_dir blocks = (rs, fs')"
    by (cases "apply_blocks fs base_dir blocks")
  with apply_blocks_outcomes [of fs base_dir blocks] assms show ?thesis
    by (simp add: apply_patch_def)
qed

lemma two_headers_lines: "split_nl (join_nl two_headers_patch) = two_headers_patch"
  by code_simp

lemma two_headers_nonblank: "strip (join_nl two_headers_patch) \<noteq> []"
  by code_simp

lemma two_headers_begin:
  "0 < length two_headers_patch \<and> strip (two_headers_patch ! 0) = begin_marker"
  by code_simp

lemma two_headers_action: "find_action two_headers_patch (Suc 0) = Some (''Update'', ''f'', Suc 0)"
  by code_simp

lemma two_headers_at_2:
  "2 < length two_headers_patch \<and> strip (two_headers_patch ! 2) \<noteq> end_marker
    \<and> startswith (two_headers_patch ! 2) ''@@''"
  by code_simp

lemma two_headers_hunk:
  "parse_hunk two_headers_patch 2 = Some \<lparr>header = ''a'', hlines = [], hunk_end_index = 1\<rparr>"
  by code_simp

lemma update_hunks_two_headers:
  assumes ret: "update_hunks lines i hs = Some r"
  shows "\<not> (lines = two_headers_patch \<and> i = 2)"
proof (rule update_hunks.raw_induct
    [where P = "\<lambda>lines i hs r. \<not> (lines = two_headers_patch \<and> i = 2)", OF _ ret])
  fix f lines' i' hs' r'
  assume IH: "\<And>lines i hs r. f lines i hs = Some r \<Longrightarrow> \<not> (lines = two_headers_patch \<and> i = 2)"
    and step: "(if i' < length lines' \<and> strip (lines' ! i') \<noteq> end_marker then
        (if startswith (lines' ! i') ''@@'' then
           (case parse_hunk lines' i' of
              Some h \<Rightarrow> f lines' (nat (hunk_end_index h + 1)) (hs' @ [h])
            | None \<Rightarrow> f lines' (i' + 1) hs')
         else f lines' (i' + 1) hs')
      else Some (hs', i')) = Some r'"
  show "\<not> (lines' = two_headers_patch \<and> i' = 2)"
  proof
    assume "lines' = two_headers_patch \<and> i' = 2"
    with step have "f two_headers_patch 2
        (hs' @ [\<lparr>header = ''a'', hlines = [], hunk_end_index = 1\<rparr>]) = Some r'"
      by (simp add: two_headers_at_2 two_headers_hunk)
    from IH [OF this] show False by simp
  qed
qed

text \<open>
  C6. A patch text whose Update block has two hunk headers in a row. After the first,
  empty hunk the loop of \<open>_parse_block\<close> continues at the index of that same header, so it
  parses it again and again: \<open>parse_patch\<close> does not return, and neither does
  \<open>apply_patch\<close>, whatever the file system and the directory.
\<close>

theorem apply_patch_diverges_on_adjacent_headers:
  "parse_patch (join_nl two_headers_patch) = None \<and>
   apply_patch fs (join_nl two_headers_patch) base_dir = None"
proof -
  have u: "update_hunks two_headers_patch 2 [] = None"
    using update_hunks_two_headers [of two_headers_patch 2 "[]"]
    by (cases "update_hunks two_headers_patch 2 []") auto
  have "parse_block two_headers_patch (Suc 0) = None"
    unfolding parse_block_def two_headers_action using u by (simp add: numeral_2_eq_2)
  then have "parse_blocks two_headers_patch 0 [] = None"
    using two_headers_begin by (subst parse_blocks.simps) simp
  then have "parse_patch (join_nl two_headers_patch) = None"
    by (simp add: parse_patch_def two_headers_lines two_headers_nonblank)
  then show ?thesis by (simp add: apply_patch_def)
qed

section \<open>The Add action: facts and properties\<close>















end
